theory Spec2Isabelle
  imports Main
begin

section \<open>Vocabulary: keys, values, errors, lifecycles\<close>

text \<open>
  A key is a unique symbol (\<^verbatim>\<open>TKey extends symbol\<close>): an opaque token compared by
  identity. The number is the identity of the symbol.
\<close>

type_synonym key = nat

text \<open>
  What a factory may return: any JavaScript value. Objects are references
  (\<open>VObj a\<close> is the object at address \<open>a\<close>), so equality of two \<open>VObj\<close> values is
  reference equality.
\<close>

datatype val =
    VUndefined
  | VNull
  | VBool bool
  | VNum int
  | VNaN
  | VStr string
  | VObj nat

text \<open>The test \<^verbatim>\<open>if (maybeGlobal)\<close> / \<^verbatim>\<open>if (maybeLocal)\<close>: JavaScript truthiness.\<close>

fun truthy :: "val \<Rightarrow> bool" where
  "truthy VUndefined = False"
| "truthy VNull = False"
| "truthy (VBool b) = b"
| "truthy (VNum n) = (n \<noteq> 0)"
| "truthy VNaN = False"
| "truthy (VStr s) = (s \<noteq> [])"
| "truthy (VObj a) = True"

text \<open>
  What a call can throw: the host's \<^verbatim>\<open>TypeError\<close>, the library's
  \<^verbatim>\<open>MissingDependencyError\<close> with its message, or whatever value a factory threw.
\<close>

datatype error =
    TypeError
  | MissingDependencyError string
  | Thrown val

text \<open>\<^verbatim>\<open>enum Lifecycle\<close> of \<^verbatim>\<open>constants.ts\<close>.\<close>

datatype Lifecycle = GlobalSingleton | LocalSingleton | Ephemeral

text \<open>
  A factory is user code. It receives the resolved dependencies in order and either
  returns a value (\<open>Inr\<close>) or throws one (\<open>Inl\<close>). It may allocate objects and keep
  state of its own: it reads the counter of the heap (the next unused object address)
  and returns the counter it leaves behind. It does not call the container.
\<close>

type_synonym factory = "val list \<Rightarrow> nat \<Rightarrow> (val + val) \<times> nat"

text \<open>One entry of \<^verbatim>\<open>ServiceFactories\<close>: \<^verbatim>\<open>{lifecycle, deps, factory}\<close>.\<close>

record descriptor =
  lifecycle :: Lifecycle
  deps :: "key list"
  factory :: factory

section \<open>Registries and the state of the process\<close>

text \<open>
  A \<^verbatim>\<open>ServiceInjector\<close> has two private readonly fields. \<^verbatim>\<open>factories\<close> is never
  written after construction, so the registry holds the map itself. \<^verbatim>\<open>cache\<close> is an
  object that \<^verbatim>\<open>get\<close> mutates in place, so the registry holds the address of that
  object and the state holds its contents.
\<close>

record registry =
  factories :: "key \<rightharpoonup> descriptor"
  cache :: nat

text \<open>
  The mutable state: the two static fields of the class, the store of cache objects,
  the next unused cache address, and the part of the heap that factories work on, as one
  counter \<open>fresh\<close>: a factory that allocates an object takes the address \<open>fresh\<close> and
  advances the counter, and a factory that counts its calls reads and advances it the
  same way. A static field that holds \<^verbatim>\<open>undefined\<close> is \<open>None\<close>.
\<close>

record world =
  root_instance :: "registry option"
  globalCache :: "(key \<rightharpoonup> val) option"
  caches :: "nat \<Rightarrow> (key \<rightharpoonup> val)"
  next_cache :: nat
  fresh :: nat

text \<open>
  At program start: \<^verbatim>\<open>private static instance\<close> and \<^verbatim>\<open>private static globalCache\<close> are
  declared without initializer, so both are \<^verbatim>\<open>undefined\<close>.
\<close>

definition initial_world :: world where
  "initial_world =
     \<lparr>root_instance = None, globalCache = None, caches = (\<lambda>a. Map.empty),
      next_cache = 0, fresh = 0\<rparr>"

text \<open>
  \<^verbatim>\<open>new ServiceInjector(factories, cache)\<close>, where \<^verbatim>\<open>cache\<close> is a freshly built object
  literal with the given contents: the object gets the next unused address.
\<close>

definition new_ServiceInjector ::
  "(key \<rightharpoonup> descriptor) \<Rightarrow> (key \<rightharpoonup> val) \<Rightarrow> world \<Rightarrow> registry \<times> world" where
  "new_ServiceInjector fs c w =
     (\<lparr>factories = fs, cache = next_cache w\<rparr>,
      w\<lparr>caches := (caches w)(next_cache w := c), next_cache := Suc (next_cache w)\<rparr>)"

text \<open>\<^verbatim>\<open>getRoot\<close>: the canonical root, created on first use.\<close>

definition getRoot :: "world \<Rightarrow> registry \<times> world" where
  "getRoot w =
     (case root_instance w of
        Some r \<Rightarrow> (r, w)
      | None \<Rightarrow>
          (case new_ServiceInjector Map.empty Map.empty w of
             (r, w') \<Rightarrow> (r, w'\<lparr>root_instance := Some r\<rparr>)))"

text \<open>\<^verbatim>\<open>fork\<close>: \<^verbatim>\<open>new ServiceInjector({...this.factories}, {...this.cache})\<close>.\<close>

definition fork :: "registry \<Rightarrow> world \<Rightarrow> registry \<times> world" where
  "fork r w = new_ServiceInjector (factories r) (caches w (cache r)) w"

section \<open>Registration\<close>

text \<open>
  The message of the error, \<^verbatim>\<open>`Missing dependency: ${dep}`\<close>. A template literal
  applies the host's ToString to \<^verbatim>\<open>dep\<close>; \<^verbatim>\<open>dep\<close> is a symbol, and ToString of a
  symbol throws a TypeError. So the message is never built.
\<close>

definition missing_dependency_message :: "key \<Rightarrow> error + string" where
  "missing_dependency_message dep = Inl TypeError"

text \<open>
  \<^verbatim>\<open>throw new MissingDependencyError(`Missing dependency: ${dep}`)\<close>: the argument is
  evaluated first.
\<close>

definition throw_missing_dependency :: "key \<Rightarrow> error" where
  "throw_missing_dependency dep =
     (case missing_dependency_message dep of
        Inl e \<Rightarrow> e
      | Inr msg \<Rightarrow> MissingDependencyError msg)"

text \<open>
  The loop \<^verbatim>\<open>for (const dep of deps)\<close> of \<^verbatim>\<open>registerFactory\<close>: the first dependency
  without a descriptor throws; \<open>None\<close> when the loop ends normally.
\<close>

fun check_deps :: "(key \<rightharpoonup> descriptor) \<Rightarrow> key list \<Rightarrow> error option" where
  "check_deps fs [] = None"
| "check_deps fs (dep # rest) =
     (if fs dep = None then Some (throw_missing_dependency dep) else check_deps fs rest)"

text \<open>
  \<^verbatim>\<open>registerFactory({key, deps, factory, lifecycle = Lifecycle.GlobalSingleton})\<close>.
  The parameter is destructured in the signature, so the model takes the four fields;
  an absent \<^verbatim>\<open>lifecycle\<close> is \<open>None\<close>. The new registry gets the old descriptors with
  the entry for \<^verbatim>\<open>key\<close> written last, and a new cache object \<^verbatim>\<open>{...this.cache}\<close>.
\<close>

definition registerFactory ::
  "registry \<Rightarrow> key \<Rightarrow> key list \<Rightarrow> factory \<Rightarrow> Lifecycle option \<Rightarrow> world
     \<Rightarrow> (error + registry) \<times> world" where
  "registerFactory r k ds f lc w =
     (case check_deps (factories r) ds of
        Some e \<Rightarrow> (Inl e, w)
      | None \<Rightarrow>
          (case new_ServiceInjector
                  ((factories r)(k \<mapsto>
                     \<lparr>lifecycle = (case lc of None \<Rightarrow> GlobalSingleton | Some l \<Rightarrow> l),
                      deps = ds, factory = f\<rparr>))
                  (caches w (cache r)) w of
             (r', w') \<Rightarrow> (Inr r', w')))"

section \<open>Resolution\<close>

text \<open>
  The cache test at the head of \<^verbatim>\<open>get\<close>. Reading a property of \<^verbatim>\<open>undefined\<close> throws a
  TypeError; an entry counts only when it is truthy. \<open>Inr None\<close> is a miss.
\<close>

definition cache_lookup :: "registry \<Rightarrow> key \<Rightarrow> Lifecycle \<Rightarrow> world \<Rightarrow> error + val option" where
  "cache_lookup r k lc w =
     (case lc of
        GlobalSingleton \<Rightarrow>
          (case globalCache w of
             None \<Rightarrow> Inl TypeError
           | Some g \<Rightarrow>
               (case g k of
                  None \<Rightarrow> Inr None
                | Some v \<Rightarrow> if truthy v then Inr (Some v) else Inr None))
      | LocalSingleton \<Rightarrow>
          (case caches w (cache r) k of
             None \<Rightarrow> Inr None
           | Some v \<Rightarrow> if truthy v then Inr (Some v) else Inr None)
      | Ephemeral \<Rightarrow> Inr None)"

text \<open>
  The cache store at the tail of \<^verbatim>\<open>get\<close>, and the \<^verbatim>\<open>return instance\<close> after it.
  Writing a property of \<^verbatim>\<open>undefined\<close> throws a TypeError.
\<close>

definition cache_store ::
  "registry \<Rightarrow> key \<Rightarrow> Lifecycle \<Rightarrow> val \<Rightarrow> world \<Rightarrow> (error + val) \<times> world" where
  "cache_store r k lc v w =
     (case lc of
        GlobalSingleton \<Rightarrow>
          (case globalCache w of
             None \<Rightarrow> (Inl TypeError, w)
           | Some g \<Rightarrow> (Inr v, w\<lparr>globalCache := Some (g(k \<mapsto> v))\<rparr>))
      | LocalSingleton \<Rightarrow>
          (Inr v, w\<lparr>caches := (caches w)(cache r := (caches w (cache r))(k \<mapsto> v))\<rparr>)
      | Ephemeral \<Rightarrow> (Inr v, w))"

text \<open>
  \<^verbatim>\<open>depKeys.map((key) => this.get(key))\<close>: the keys are resolved from left to right,
  each in the state the previous one left, and the first exception ends the loop.
  The resolver of one key is a parameter; \<open>None\<close> means that it does not return.
\<close>

fun map_get ::
  "(key \<Rightarrow> world \<Rightarrow> ((error + val) \<times> world) option) \<Rightarrow> key list \<Rightarrow> world
     \<Rightarrow> ((error + val list) \<times> world) option" where
  "map_get g [] w = Some (Inr [], w)"
| "map_get g (k # ks) w =
     (case g k w of
        None \<Rightarrow> None
      | Some (Inl e, w1) \<Rightarrow> Some (Inl e, w1)
      | Some (Inr v, w1) \<Rightarrow>
          (case map_get g ks w1 of
             None \<Rightarrow> None
           | Some (Inl e, w2) \<Rightarrow> Some (Inl e, w2)
           | Some (Inr vs, w2) \<Rightarrow> Some (Inr (v # vs), w2)))"

text \<open>
  \<^verbatim>\<open>factory(...deps)\<close> in the state \<open>w\<close>: the factory runs on the heap's allocation
  counter; a value it throws reaches the caller as it is.
\<close>

definition invoke :: "factory \<Rightarrow> val list \<Rightarrow> world \<Rightarrow> (error + val) \<times> world" where
  "invoke f args w =
     (case f args (fresh w) of
        (Inl e, h) \<Rightarrow> (Inl (Thrown e), w\<lparr>fresh := h\<rparr>)
      | (Inr v, h) \<Rightarrow> (Inr v, w\<lparr>fresh := h\<rparr>))"

text \<open>
  \<^verbatim>\<open>get(key)\<close>. The recursion through the dependencies may not end (a registry can hold
  a cycle after a key is registered again), so the first argument bounds the depth of
  the recursion and \<open>None\<close> means that the bound was reached. Destructuring
  \<^verbatim>\<open>this.factories[key]\<close> for a key without descriptor throws a TypeError.
\<close>

primrec get ::
  "nat \<Rightarrow> registry \<Rightarrow> key \<Rightarrow> world \<Rightarrow> ((error + val) \<times> world) option" where
  "get 0 r k w = None"
| "get (Suc n) r k w =
     (case factories r k of
        None \<Rightarrow> Some (Inl TypeError, w)
      | Some d \<Rightarrow>
          (case cache_lookup r k (lifecycle d) w of
             Inl e \<Rightarrow> Some (Inl e, w)
           | Inr (Some v) \<Rightarrow> Some (Inr v, w)
           | Inr None \<Rightarrow>
               (case map_get (get n r) (deps d) w of
                  None \<Rightarrow> None
                | Some (Inl e, w1) \<Rightarrow> Some (Inl e, w1)
                | Some (Inr args, w1) \<Rightarrow>
                    (case invoke (factory d) args w1 of
                       (Inl e, w2) \<Rightarrow> Some (Inl e, w2)
                     | (Inr v, w2) \<Rightarrow> Some (cache_store r k (lifecycle d) v w2)))))"

text \<open>\<^verbatim>\<open>make(depKeys, factory)\<close>: resolve the keys, call the factory, cache nothing.\<close>

definition make ::
  "nat \<Rightarrow> registry \<Rightarrow> key list \<Rightarrow> factory \<Rightarrow> world \<Rightarrow> ((error + val) \<times> world) option" where
  "make n r depKeys f w =
     (case map_get (get n r) depKeys w of
        None \<Rightarrow> None
      | Some (Inl e, w1) \<Rightarrow> Some (Inl e, w1)
      | Some (Inr args, w1) \<Rightarrow> Some (invoke f args w1))"

section \<open>States a program can reach\<close>

text \<open>
  The states that calls of the public methods produce from the start of the process.
  The fields are private, so nothing else writes them.
\<close>

inductive reachable :: "world \<Rightarrow> bool" where
  start: "reachable initial_world"
| after_getRoot: "reachable w \<Longrightarrow> reachable (snd (getRoot w))"
| after_fork: "reachable w \<Longrightarrow> reachable (snd (fork r w))"
| after_registerFactory: "reachable w \<Longrightarrow> reachable (snd (registerFactory r k ds f lc w))"
| after_get: "reachable w \<Longrightarrow> get n r k w = Some (res, w') \<Longrightarrow> reachable w'"
| after_make: "reachable w \<Longrightarrow> make n r ks f w = Some (res, w') \<Longrightarrow> reachable w'"

section \<open>Example programs\<close>

text \<open>
  Factories: \<^verbatim>\<open>() => ({})\<close> (or \<^verbatim>\<open>(...args) => new C(...args)\<close>) allocates one object;
  \<^verbatim>\<open>() => { throw e }\<close> throws.
\<close>

definition object_factory :: factory where
  "object_factory args h = (Inr (VObj h), Suc h)"

definition throwing_factory :: "val \<Rightarrow> factory" where
  "throwing_factory e args h = (Inl e, h)"

text \<open>\<^verbatim>\<open>ServiceInjector.getRoot()\<close> as the first call of a program.\<close>

definition root :: registry where
  "root = fst (getRoot initial_world)"

definition world0 :: world where
  "world0 = snd (getRoot initial_world)"

text \<open>
  \<^verbatim>\<open>getRoot().registerFactory({key: a, deps: [], factory: () => ({})})\<close>, with the
  default lifecycle; \<open>1\<close> is the symbol \<^verbatim>\<open>a\<close>.
\<close>

definition registry_G :: registry where
  "registry_G =
     \<lparr>factories = [1 \<mapsto> \<lparr>lifecycle = GlobalSingleton, deps = [], factory = object_factory\<rparr>],
      cache = 1\<rparr>"

definition world_G :: world where
  "world_G = snd (registerFactory root 1 [] object_factory None world0)"

text \<open>
  \<^verbatim>\<open>(x, y) => x\<close>: returns its first argument (\<^verbatim>\<open>undefined\<close> when there is none).
\<close>

definition first_argument_factory :: factory where
  "first_argument_factory args h = (Inr (case args of [] \<Rightarrow> VUndefined | a # rest \<Rightarrow> a), h)"

text \<open>
  The state after \<^verbatim>\<open>getRoot()\<close> and further registrations, before any \<^verbatim>\<open>get\<close>:
  \<open>m\<close> cache objects exist and all are empty.
\<close>

definition empty_world :: "nat \<Rightarrow> world" where
  "empty_world m =
     \<lparr>root_instance = Some root, globalCache = None, caches = (\<lambda>a. Map.empty),
      next_cache = m, fresh = 0\<rparr>"

text \<open>
  \<^verbatim>\<open>r1 = getRoot().registerFactory({lifecycle: LocalSingleton, key: x, deps: [], factory: () => ({})})\<close>,
  \<^verbatim>\<open>r2 = r1.registerFactory({lifecycle: LocalSingleton, key: y, deps: [], factory: () => ({})})\<close>,
  \<^verbatim>\<open>r3 = r2.registerFactory({lifecycle: Ephemeral, key: z, deps: [x, y], factory: (a, b) => a})\<close>;
  the symbols \<^verbatim>\<open>x\<close>, \<^verbatim>\<open>y\<close>, \<^verbatim>\<open>z\<close> are \<open>1\<close>, \<open>2\<close>, \<open>3\<close>.
\<close>

definition local_object :: descriptor where
  "local_object = \<lparr>lifecycle = LocalSingleton, deps = [], factory = object_factory\<rparr>"

definition registry_L1 :: registry where
  "registry_L1 = \<lparr>factories = [1 \<mapsto> local_object], cache = 1\<rparr>"

definition registry_L2 :: registry where
  "registry_L2 = \<lparr>factories = [1 \<mapsto> local_object, 2 \<mapsto> local_object], cache = 2\<rparr>"

definition registry_L3 :: registry where
  "registry_L3 =
     \<lparr>factories = [1 \<mapsto> local_object, 2 \<mapsto> local_object,
         3 \<mapsto> \<lparr>lifecycle = Ephemeral, deps = [1, 2], factory = first_argument_factory\<rparr>],
      cache = 3\<rparr>"


text \<open>
  \<^verbatim>\<open>rT = r1.registerFactory({lifecycle: LocalSingleton, key: t, deps: [x], factory: (a) => { throw 'boom' }})\<close>;
  the symbol \<^verbatim>\<open>t\<close> is \<open>4\<close>.
\<close>

definition registry_T :: registry where
  "registry_T =
     \<lparr>factories = [1 \<mapsto> local_object,
         4 \<mapsto> \<lparr>lifecycle = LocalSingleton, deps = [1],
                factory = throwing_factory (VStr ''boom'')\<rparr>],
      cache = 2\<rparr>"

text \<open>The state after \<^verbatim>\<open>rT.get(t)\<close> has thrown.\<close>

definition world_T_resolved :: world where
  "world_T_resolved =
     (empty_world 3)\<lparr>caches := (\<lambda>a. Map.empty)(2 := [1 \<mapsto> VObj 0]), fresh := 1\<rparr>"

section \<open>The specification's reading of the dependency order\<close>


section \<open>Auxiliary notions of the proofs\<close>

text \<open>
  The state \<open>u\<close> with one more cache object: contents \<open>c\<close> at the address \<open>a\<close>, and \<open>m\<close>
  as the next unused address.
\<close>

definition with_cache :: "nat \<Rightarrow> (key \<rightharpoonup> val) \<Rightarrow> nat \<Rightarrow> world \<Rightarrow> world" where
  "with_cache a c m u = u\<lparr>caches := (caches u)(a := c), next_cache := m\<rparr>"

text \<open>
  The state after \<^verbatim>\<open>r1.get(x)\<close>, and the state after a registry was then produced from
  \<^verbatim>\<open>r1\<close> by \<^verbatim>\<open>registerFactory\<close> or by \<^verbatim>\<open>fork\<close>.
\<close>

definition world_L1_cached :: world where
  "world_L1_cached =
     (empty_world 2)\<lparr>caches := (\<lambda>a. Map.empty)(1 := [1 \<mapsto> VObj 0]), fresh := 1\<rparr>"

definition world_L1_copied :: world where
  "world_L1_copied = with_cache 2 [1 \<mapsto> VObj 0] 3 world_L1_cached"

definition registry_L1_fork :: registry where
  "registry_L1_fork = \<lparr>factories = [1 \<mapsto> local_object], cache = 2\<rparr>"

text \<open>
  \<^verbatim>\<open>f = r1.fork()\<close> taken before any \<^verbatim>\<open>get\<close>: the states after \<^verbatim>\<open>r1.get(x)\<close> and
  after \<^verbatim>\<open>f.get(x)\<close> then.
\<close>

definition world_fork_original :: world where
  "world_fork_original =
     (empty_world 3)\<lparr>caches := (\<lambda>a. Map.empty)(1 := [1 \<mapsto> VObj 0]), fresh := 1\<rparr>"

definition world_fork_both :: world where
  "world_fork_both =
     (empty_world 3)\<lparr>caches := (\<lambda>a. Map.empty)(1 := [1 \<mapsto> VObj 0], 2 := [1 \<mapsto> VObj 1]),
       fresh := 2\<rparr>"

section \<open>Assumptions on factories\<close>

text \<open>
  The factory allocates a distinguishable object at each call: it returns an object at
  an address that was unused when it was called and is used afterwards.
\<close>

definition allocating :: "factory \<Rightarrow> bool" where
  "allocating f = (\<forall>args h. \<exists>a h'. f args h = (Inr (VObj a), h') \<and> h \<le> a \<and> a < h')"

text \<open>No factory of the registry gives an address back: the counter never decreases.\<close>

definition heap_monotone :: "registry \<Rightarrow> bool" where
  "heap_monotone r = (\<forall>k d args h. factories r k = Some d \<longrightarrow> h \<le> snd (factory d args h))"

section \<open>Example programs with ephemeral and falsy services\<close>

text \<open>
  \<^verbatim>\<open>rE = r1.registerFactory({lifecycle: Ephemeral, key: e, deps: [x], factory: (a) => ({})})\<close>;
  the symbol \<^verbatim>\<open>e\<close> is \<open>6\<close>. Then the states after the first and after the second
  \<^verbatim>\<open>rE.get(e)\<close>.
\<close>

definition registry_E :: registry where
  "registry_E =
     \<lparr>factories = [1 \<mapsto> local_object,
         6 \<mapsto> \<lparr>lifecycle = Ephemeral, deps = [1], factory = object_factory\<rparr>],
      cache = 2\<rparr>"

definition world_E1 :: world where
  "world_E1 = (empty_world 3)\<lparr>caches := (\<lambda>a. Map.empty)(2 := [1 \<mapsto> VObj 0]), fresh := 2\<rparr>"

definition world_E2 :: world where
  "world_E2 = (empty_world 3)\<lparr>caches := (\<lambda>a. Map.empty)(2 := [1 \<mapsto> VObj 0]), fresh := 3\<rparr>"

text \<open>
  \<^verbatim>\<open>let n = 0; const f = () => (n++ % 2 === 0 ? null : undefined)\<close>: a factory whose
  results are all falsy and differ from one call to the next. Its call counter is the
  counter of the heap.
\<close>

definition alternating_falsy_factory :: factory where
  "alternating_falsy_factory args h = (Inr (if even h then VNull else VUndefined), Suc h)"

text \<open>
  \<^verbatim>\<open>rF = getRoot().registerFactory({lifecycle: LocalSingleton, key: s, deps: [], factory: f})\<close>
  and \<^verbatim>\<open>rZ = getRoot().registerFactory({key: s, deps: [], factory: f})\<close>, the latter with the
  default lifecycle; the symbol \<^verbatim>\<open>s\<close> is \<open>5\<close>. Then the states after the first and after
  the second \<^verbatim>\<open>rF.get(s)\<close>.
\<close>

definition registry_F :: registry where
  "registry_F =
     \<lparr>factories =
        [5 \<mapsto> \<lparr>lifecycle = LocalSingleton, deps = [], factory = alternating_falsy_factory\<rparr>],
      cache = 1\<rparr>"

definition registry_Z :: registry where
  "registry_Z =
     \<lparr>factories =
        [5 \<mapsto> \<lparr>lifecycle = GlobalSingleton, deps = [], factory = alternating_falsy_factory\<rparr>],
      cache = 1\<rparr>"

definition world_F1 :: world where
  "world_F1 = (empty_world 2)\<lparr>caches := (\<lambda>a. Map.empty)(1 := [5 \<mapsto> VNull]), fresh := 1\<rparr>"

definition world_F2 :: world where
  "world_F2 =
     (empty_world 2)\<lparr>caches := (\<lambda>a. Map.empty)(1 := [5 \<mapsto> VUndefined]), fresh := 2\<rparr>"

section \<open>The global cache is never an object\<close>

lemma map_get_preserves:
  assumes step: "\<And>k w res w'. P w \<Longrightarrow> g k w = Some (res, w') \<Longrightarrow> P w'"
    and "P w" and "map_get g ks w = Some (res, w')"
  shows "P w'"
  using assms(2,3)
proof (induction ks arbitrary: w res)
  case Nil
  then show ?case by simp
next
  case (Cons k ks)
  then show ?case
    by (auto split: option.splits sum.splits prod.splits dest: step)
qed

lemma invoke_globalCache: "invoke f args w = (res, w') \<Longrightarrow> globalCache w' = globalCache w"
  by (auto simp: invoke_def split: prod.splits sum.splits)

lemma cache_store_globalCache_None:
  "globalCache w = None \<Longrightarrow> cache_store r k lc v w = (res, w') \<Longrightarrow> globalCache w' = None"
  by (auto simp: cache_store_def split: Lifecycle.splits)

lemma get_globalCache_None:
  "globalCache w = None \<Longrightarrow> get n r k w = Some (res, w') \<Longrightarrow> globalCache w' = None"
proof (induction n arbitrary: k w res w')
  case 0
  then show ?case by simp
next
  case (Suc n)
  have deps: "globalCache u' = None"
    if "globalCache u = None" "map_get (get n r) ks u = Some (x, u')" for ks u x u'
    using map_get_preserves [where P = "\<lambda>w. globalCache w = None" and g = "get n r", OF _ that]
      Suc.IH by blast
  from Suc.prems show ?case
    by (auto split: option.splits sum.splits prod.splits)
      (metis deps invoke_globalCache cache_store_globalCache_None)+
qed

lemma make_globalCache_None:
  assumes "globalCache w = None" "make n r ks f w = Some (res, w')"
  shows "globalCache w' = None"
proof -
  have deps: "globalCache u' = None"
    if "globalCache u = None" "map_get (get n r) ks u = Some (x, u')" for ks u x u'
    using map_get_preserves [where P = "\<lambda>w. globalCache w = None" and g = "get n r", OF _ that]
      get_globalCache_None by blast
  from assms show ?thesis
    by (auto simp: make_def split: option.splits sum.splits prod.splits)
      (metis deps invoke_globalCache)+
qed

lemma reachable_globalCache: "reachable w \<Longrightarrow> globalCache w = None"
proof (induction rule: reachable.induct)
  case start
  then show ?case by (simp add: initial_world_def)
next
  case (after_getRoot w)
  then show ?case by (simp add: getRoot_def new_ServiceInjector_def split: option.splits)
next
  case (after_fork w r)
  then show ?case by (simp add: fork_def new_ServiceInjector_def)
next
  case (after_registerFactory w r k ds f lc)
  then show ?case
    by (simp add: registerFactory_def new_ServiceInjector_def split: option.splits)
next
  case (after_get w n r k res w')
  then show ?case using get_globalCache_None by blast
next
  case (after_make w n r ks f res w')
  then show ?case using make_globalCache_None by blast
qed

lemma root_eq: "root = \<lparr>factories = Map.empty, cache = 0\<rparr>"
  by (simp add: root_def getRoot_def initial_world_def new_ServiceInjector_def)

lemma reachable_world0: "reachable world0"
  unfolding world0_def by (rule reachable.after_getRoot) (rule reachable.start)

lemma next_cache_world0: "next_cache world0 = 1"
  by (simp add: world0_def getRoot_def initial_world_def new_ServiceInjector_def)

lemma register_G: "registerFactory root 1 [] object_factory None world0 = (Inr registry_G, world_G)"
  by (simp add: world_G_def registerFactory_def new_ServiceInjector_def registry_G_def
      root_eq next_cache_world0)

lemma reachable_world_G: "reachable world_G"
  unfolding world_G_def by (rule reachable.after_registerFactory) (rule reachable_world0)

text \<open>
  C4. In every state a program can reach, the static field \<^verbatim>\<open>globalCache\<close> is still
  \<^verbatim>\<open>undefined\<close>. So for a key whose descriptor has the lifecycle GlobalSingleton, both
  the cache lookup and the cache store of \<^verbatim>\<open>get\<close> act on \<^verbatim>\<open>undefined\<close>, and every
  \<^verbatim>\<open>get\<close> of the key throws a TypeError at the lookup, whatever the recursion bound,
  leaving the state as it was and returning no instance.
\<close>

theorem get_GlobalSingleton_TypeError:
  assumes "reachable w" and "factories r k = Some d" and "lifecycle d = GlobalSingleton"
  shows "globalCache w = None
    \<and> cache_lookup r k (lifecycle d) w = Inl TypeError
    \<and> fst (cache_store r k (lifecycle d) v w) = Inl TypeError
    \<and> get (Suc n) r k w = Some (Inl TypeError, w)"
  using assms reachable_globalCache [OF assms(1)]
  by (simp add: cache_lookup_def cache_store_def)

theorem get_GlobalSingleton_TypeError_witness:
  "reachable world_G
    \<and> factories registry_G 1 =
        Some \<lparr>lifecycle = GlobalSingleton, deps = [], factory = object_factory\<rparr>
    \<and> globalCache world_G = None
    \<and> fst (cache_store registry_G 1 GlobalSingleton (VObj 0) world_G) = Inl TypeError
    \<and> get 1 registry_G 1 world_G = Some (Inl TypeError, world_G)"
proof -
  have d: "factories registry_G 1 =
      Some \<lparr>lifecycle = GlobalSingleton, deps = [], factory = object_factory\<rparr>"
    by (simp add: registry_G_def)
  show ?thesis
    using get_GlobalSingleton_TypeError [OF reachable_world_G d, of "VObj 0" 0] reachable_world_G d
    by simp
qed

text \<open>
  C1. The program \<^verbatim>\<open>r = getRoot().registerFactory({key: a, deps: [], factory: () => ({})})\<close>
  followed by \<^verbatim>\<open>r.get(a)\<close>: the key has the (default) lifecycle GlobalSingleton, and
  the call does not return an instance. It throws a TypeError, the factory is not
  called and nothing is cached, so no two calls return the same instance.
\<close>

theorem get_GlobalSingleton_program:
  "registerFactory root 1 [] object_factory None world0 = (Inr registry_G, world_G)
    \<and> get (Suc n) registry_G 1 world_G = Some (Inl TypeError, world_G)"
proof -
  have "globalCache world_G = None"
    using reachable_globalCache [OF reachable_world_G] .
  then have "get (Suc n) registry_G 1 world_G = Some (Inl TypeError, world_G)"
    by (simp add: registry_G_def cache_lookup_def)
  with register_G show ?thesis by simp
qed

section \<open>Registration with a missing dependency\<close>

lemma check_deps_missing:
  "dep \<in> set ds \<Longrightarrow> fs dep = None \<Longrightarrow> check_deps fs ds = Some TypeError"
  by (induction ds) (auto simp: throw_missing_dependency_def missing_dependency_message_def)

text \<open>
  C2. When some element of \<^verbatim>\<open>deps\<close> has no descriptor in the registry,
  \<^verbatim>\<open>registerFactory\<close> throws and the state (every cache, every registry) is what it
  was. What it throws is the TypeError of the template literal that builds the
  message, not a MissingDependencyError.
\<close>

theorem registerFactory_missing_dependency:
  assumes "dep \<in> set ds" and "factories r dep = None"
  shows "registerFactory r k ds f lc w = (Inl TypeError, w)"
  using check_deps_missing [of dep ds "factories r"] assms by (simp add: registerFactory_def)

theorem registerFactory_missing_dependency_witness:
  "(1::nat) \<in> set [1] \<and> factories root 1 = None
    \<and> registerFactory root 2 [1] object_factory None world0 = (Inl TypeError, world0)"
proof -
  have a: "(1::nat) \<in> set [1]" by simp
  have b: "factories root 1 = None" by (simp add: root_eq)
  show ?thesis
    using registerFactory_missing_dependency [OF a b, of 2 object_factory None world0] a b
    by simp
qed

section \<open>Evaluating the example programs\<close>

lemma fun_upd_const: "(\<lambda>a. c)(x := c) = (\<lambda>a. c)"
  by auto

lemma world0_eq: "world0 = empty_world 1"
  by (simp add: world0_def empty_world_def getRoot_def initial_world_def
      new_ServiceInjector_def root_eq fun_upd_const)

lemma program_L:
  "registerFactory root 1 [] object_factory (Some LocalSingleton) (empty_world 1) =
     (Inr registry_L1, empty_world 2)"
  "registerFactory registry_L1 2 [] object_factory (Some LocalSingleton) (empty_world 2) =
     (Inr registry_L2, empty_world 3)"
  "registerFactory registry_L2 3 [1, 2] first_argument_factory (Some Ephemeral) (empty_world 3) =
     (Inr registry_L3, empty_world 4)"
  by (simp_all add: registerFactory_def new_ServiceInjector_def root_eq empty_world_def
      registry_L1_def registry_L2_def registry_L3_def local_object_def fun_upd_const)

lemma program_T:
  "registerFactory registry_L1 4 [1] (throwing_factory (VStr ''boom'')) (Some LocalSingleton)
     (empty_world 2) = (Inr registry_T, empty_world 3)"
  by (simp add: registerFactory_def new_ServiceInjector_def empty_world_def
      registry_L1_def registry_T_def local_object_def fun_upd_const)

lemmas example_defs =
  empty_world_def local_object_def cache_lookup_def cache_store_def invoke_def
  object_factory_def first_argument_factory_def throwing_factory_def numeral_2_eq_2

section \<open>Order of resolution\<close>








section \<open>A factory that throws\<close>

text \<open>
  C10. When the dependencies \<open>ks\<close> resolve to \<open>args\<close> and the factory throws \<open>e\<close> on
  them, \<^verbatim>\<open>make\<close> throws \<open>e\<close> itself, and so does \<^verbatim>\<open>get\<close> for every key with these
  dependencies and this factory that misses the cache. The state after the throw is the
  state the dependencies left, but for what the factory did to the heap: no cache holds
  an entry from the failed call.
\<close>

theorem factory_failure_propagates:
  assumes "map_get (get n r) ks w = Some (Inr args, w1)" and "f args (fresh w1) = (Inl e, h)"
  shows "make n r ks f w = Some (Inl (Thrown e), w1\<lparr>fresh := h\<rparr>)
    \<and> (\<forall>k d. factories r k = Some d \<and> cache_lookup r k (lifecycle d) w = Inr None
           \<and> deps d = ks \<and> factory d = f \<longrightarrow>
         get (Suc n) r k w = Some (Inl (Thrown e), w1\<lparr>fresh := h\<rparr>))
    \<and> caches (w1\<lparr>fresh := h\<rparr>) = caches w1
    \<and> globalCache (w1\<lparr>fresh := h\<rparr>) = globalCache w1"
  using assms by (auto simp: make_def invoke_def)

theorem factory_failure_propagates_witness:
  "map_get (get 1 registry_T) [1] (empty_world 3) = Some (Inr [VObj 0], world_T_resolved)
    \<and> throwing_factory (VStr ''boom'') [VObj 0] (fresh world_T_resolved) = (Inl (VStr ''boom''), 1)
    \<and> make 1 registry_T [1] (throwing_factory (VStr ''boom'')) (empty_world 3) =
        Some (Inl (Thrown (VStr ''boom'')), world_T_resolved)
    \<and> get 2 registry_T 4 (empty_world 3) = Some (Inl (Thrown (VStr ''boom'')), world_T_resolved)
    \<and> caches world_T_resolved 2 4 = None
    \<and> get 2 registry_T 4 world_T_resolved = Some (Inl (Thrown (VStr ''boom'')), world_T_resolved)"
proof -
  have m: "map_get (get 1 registry_T) [1] (empty_world 3) = Some (Inr [VObj 0], world_T_resolved)"
    by (simp add: registry_T_def world_T_resolved_def example_defs)
  have t: "throwing_factory (VStr ''boom'') [VObj 0] (fresh world_T_resolved) =
      (Inl (VStr ''boom''), 1)"
    by (simp add: throwing_factory_def world_T_resolved_def)
  have u: "world_T_resolved\<lparr>fresh := 1\<rparr> = world_T_resolved"
    by (simp add: world_T_resolved_def)
  have again: "get 2 registry_T 4 world_T_resolved =
      Some (Inl (Thrown (VStr ''boom'')), world_T_resolved)"
    by (simp add: registry_T_def world_T_resolved_def example_defs)
  have c: "caches world_T_resolved 2 4 = None"
    by (simp add: world_T_resolved_def)
  have d: "factories registry_T 4 =
      Some \<lparr>lifecycle = LocalSingleton, deps = [1], factory = throwing_factory (VStr ''boom'')\<rparr>"
    by (simp add: registry_T_def)
  have l: "cache_lookup registry_T 4 LocalSingleton (empty_world 3) = Inr None"
    by (simp add: registry_T_def example_defs)
  from factory_failure_propagates [where f = "throwing_factory (VStr ''boom'')", OF m t] d l u
  have "make 1 registry_T [1] (throwing_factory (VStr ''boom'')) (empty_world 3) =
        Some (Inl (Thrown (VStr ''boom'')), world_T_resolved)"
    and "get (Suc 1) registry_T 4 (empty_world 3) =
        Some (Inl (Thrown (VStr ''boom'')), world_T_resolved)"
    by auto
  with m t again c show ?thesis by (simp add: numeral_2_eq_2)
qed

section \<open>Registration is a persistent update\<close>

lemma new_ServiceInjector_with_cache:
  "new_ServiceInjector fs c w =
     (\<lparr>factories = fs, cache = next_cache w\<rparr>, with_cache (next_cache w) c (Suc (next_cache w)) w)"
  by (simp add: new_ServiceInjector_def with_cache_def)

lemma cache_lookup_with_cache:
  "a \<noteq> cache r \<Longrightarrow> cache_lookup r k lc (with_cache a c m w) = cache_lookup r k lc w"
  by (simp add: cache_lookup_def with_cache_def split: Lifecycle.splits)

lemma invoke_with_cache:
  "invoke f args (with_cache a c m w) = apsnd (with_cache a c m) (invoke f args w)"
  by (simp add: invoke_def with_cache_def split: prod.splits sum.splits)

lemma cache_store_with_cache:
  "a \<noteq> cache r \<Longrightarrow>
   cache_store r k lc v (with_cache a c m w) = apsnd (with_cache a c m) (cache_store r k lc v w)"
  by (auto simp: cache_store_def with_cache_def fun_upd_twist split: Lifecycle.splits option.splits)

lemma map_get_frame:
  assumes "\<And>k w. g k (F w) = map_option (apsnd F) (g k w)"
  shows "map_get g ks (F w) = map_option (apsnd F) (map_get g ks w)"
proof (induction ks arbitrary: w)
  case Nil
  then show ?case by simp
next
  case (Cons k ks)
  show ?case
  proof (cases "g k w")
    case None
    then show ?thesis by (simp add: assms)
  next
    case (Some p)
    obtain res w1 where p: "p = (res, w1)" by (cases p)
    show ?thesis
    proof (cases res)
      case (Inl e)
      with Some p show ?thesis by (simp add: assms)
    next
      case (Inr v)
      with Some p show ?thesis
        by (simp add: assms Cons.IH split: option.splits sum.splits prod.splits)
    qed
  qed
qed

lemma get_with_cache:
  "a \<noteq> cache r \<Longrightarrow>
   get n r k (with_cache a c m w) = map_option (apsnd (with_cache a c m)) (get n r k w)"
proof (induction n arbitrary: k w)
  case 0
  then show ?case by simp
next
  case (Suc n)
  have deps: "map_get (get n r) ks (with_cache a c m u) =
      map_option (apsnd (with_cache a c m)) (map_get (get n r) ks u)" for ks u
    by (rule map_get_frame) (rule Suc.IH [OF Suc.prems])
  show ?case
  proof (cases "factories r k")
    case None
    then show ?thesis by simp
  next
    case (Some d)
    show ?thesis
    proof (cases "cache_lookup r k (lifecycle d) w")
      case (Inl e)
      with Some Suc.prems show ?thesis by (simp add: cache_lookup_with_cache)
    next
      case (Inr hit)
      show ?thesis
      proof (cases hit)
        case (Some v)
        with Inr \<open>factories r k = Some d\<close> Suc.prems show ?thesis
          by (simp add: cache_lookup_with_cache)
      next
        case None
        with Inr \<open>factories r k = Some d\<close> Suc.prems show ?thesis
          by (auto simp: cache_lookup_with_cache deps invoke_with_cache cache_store_with_cache
              split: option.splits sum.splits prod.splits)
      qed
    qed
  qed
qed

text \<open>
  C3. Let \<^verbatim>\<open>r1.registerFactory(opts)\<close> return \<open>r2\<close>, for a registry \<open>r1\<close> whose cache object
  exists. The descriptors of \<open>r2\<close> are those of \<open>r1\<close> with the one entry for the key
  written. The state after the call is the state before with one more cache object, the
  cache of \<open>r2\<close>: every other cache, the global cache, the root and the heap are what they
  were. For every key and every recursion bound, \<^verbatim>\<open>r1.get\<close> after the call does what it
  did before: it diverges, throws or returns the same value, and changes the state in the
  same way. A key that \<open>r1\<close> did not have still has no descriptor in \<open>r1\<close>, and \<^verbatim>\<open>r1.get\<close>
  of it throws.
\<close>

theorem registerFactory_persistent:
  assumes "registerFactory r1 k ds f lc w = (Inr r2, w')" and "cache r1 < next_cache w"
  shows "factories r2 =
      (factories r1)(k \<mapsto>
        \<lparr>lifecycle = (case lc of None \<Rightarrow> GlobalSingleton | Some l \<Rightarrow> l), deps = ds, factory = f\<rparr>)
    \<and> cache r2 = next_cache w
    \<and> w' = with_cache (cache r2) (caches w (cache r1)) (Suc (next_cache w)) w
    \<and> (\<forall>a. a \<noteq> cache r2 \<longrightarrow> caches w' a = caches w a)
    \<and> globalCache w' = globalCache w \<and> fresh w' = fresh w \<and> root_instance w' = root_instance w
    \<and> (\<forall>n k'. get n r1 k' w' =
          map_option (apsnd (with_cache (cache r2) (caches w (cache r1)) (Suc (next_cache w))))
            (get n r1 k' w))
    \<and> (\<forall>n k'. map_option fst (get n r1 k' w') = map_option fst (get n r1 k' w))
    \<and> (factories r1 k = None \<longrightarrow> (\<forall>n. get (Suc n) r1 k w' = Some (Inl TypeError, w')))"
proof -
  from assms(1) have r2: "r2 = \<lparr>factories = (factories r1)(k \<mapsto>
        \<lparr>lifecycle = (case lc of None \<Rightarrow> GlobalSingleton | Some l \<Rightarrow> l), deps = ds, factory = f\<rparr>),
      cache = next_cache w\<rparr>"
    and w': "w' = with_cache (next_cache w) (caches w (cache r1)) (Suc (next_cache w)) w"
    by (auto simp: registerFactory_def new_ServiceInjector_with_cache split: option.splits)
  from assms(2) have ne: "next_cache w \<noteq> cache r1" by simp
  have frame: "get n r1 k' w' =
      map_option (apsnd (with_cache (next_cache w) (caches w (cache r1)) (Suc (next_cache w))))
        (get n r1 k' w)" for n k'
    unfolding w' by (rule get_with_cache [OF ne])
  have same: "map_option fst (get n r1 k' w') = map_option fst (get n r1 k' w)" for n k'
    by (simp add: frame option.map_comp comp_def)
  show ?thesis
    using frame same by (simp add: r2 w' with_cache_def)
qed

theorem registerFactory_persistent_witness:
  "registerFactory registry_L1 2 [] object_factory (Some LocalSingleton) (empty_world 2) =
      (Inr registry_L2, empty_world 3)
    \<and> cache registry_L1 < next_cache (empty_world 2)
    \<and> factories registry_L2 = (factories registry_L1)(2 \<mapsto> local_object)
    \<and> factories registry_L1 2 = None
    \<and> get 1 registry_L1 2 (empty_world 3) = Some (Inl TypeError, empty_world 3)
    \<and> map_option fst (get 1 registry_L1 1 (empty_world 3)) = Some (Inr (VObj 0))
    \<and> map_option fst (get 1 registry_L1 1 (empty_world 2)) = Some (Inr (VObj 0))"
proof -
  have a: "cache registry_L1 < next_cache (empty_world 2)"
    by (simp add: registry_L1_def empty_world_def)
  have n: "factories registry_L1 2 = None"
    by (simp add: registry_L1_def)
  have g: "map_option fst (get 1 registry_L1 1 (empty_world 2)) = Some (Inr (VObj 0))"
    by (simp add: registry_L1_def example_defs)
  note inst = registerFactory_persistent [OF program_L(2) a]
  from inst have f: "factories registry_L2 = (factories registry_L1)(2 \<mapsto> local_object)"
    by (simp add: local_object_def)
  from inst have "map_option fst (get 1 registry_L1 1 (empty_world 3)) =
      map_option fst (get 1 registry_L1 1 (empty_world 2))"
    by blast
  with g have s: "map_option fst (get 1 registry_L1 1 (empty_world 3)) = Some (Inr (VObj 0))"
    by simp
  from inst n have "get (Suc 0) registry_L1 2 (empty_world 3) = Some (Inl TypeError, empty_world 3)"
    by blast
  then have t: "get 1 registry_L1 2 (empty_world 3) = Some (Inl TypeError, empty_world 3)"
    by simp
  from program_L(2) a f n t s g show ?thesis by blast
qed

section \<open>Local caches\<close>

lemma get_L1: "get 1 registry_L1 1 (empty_world 2) = Some (Inr (VObj 0), world_L1_cached)"
  by (simp add: registry_L1_def world_L1_cached_def example_defs)

lemma register_after_get:
  "registerFactory registry_L1 2 [] object_factory (Some LocalSingleton) world_L1_cached =
     (Inr registry_L2, world_L1_copied)"
  "registerFactory registry_L1 4 [1] (throwing_factory (VStr ''boom'')) (Some LocalSingleton)
     world_L1_cached = (Inr registry_T, world_L1_copied)"
  by (simp_all add: registerFactory_def new_ServiceInjector_with_cache registry_L1_def
      registry_L2_def registry_T_def world_L1_copied_def world_L1_cached_def example_defs
      numeral_3_eq_3)

lemma fork_after_get: "fork registry_L1 world_L1_cached = (registry_L1_fork, world_L1_copied)"
  by (simp add: fork_def new_ServiceInjector_with_cache registry_L1_def registry_L1_fork_def
      world_L1_copied_def world_L1_cached_def example_defs numeral_3_eq_3)

lemma get_hit:
  assumes "factories r k = Some d" and "lifecycle d = LocalSingleton"
    and "caches w (cache r) k = Some v" and "truthy v"
  shows "get (Suc n) r k w = Some (Inr v, w)"
  using assms by (simp add: cache_lookup_def)

lemma invoke_caches: "invoke f args w = (res, w') \<Longrightarrow> caches w' = caches w"
  by (auto simp: invoke_def split: prod.splits sum.splits)

lemma cache_store_caches_other:
  "cache_store r k lc v w = (res, w') \<Longrightarrow> a \<noteq> cache r \<Longrightarrow> caches w' a = caches w a"
  by (auto simp: cache_store_def split: Lifecycle.splits option.splits)

lemma cache_store_entry_other:
  "cache_store r k lc v w = (res, w') \<Longrightarrow> lc \<noteq> LocalSingleton \<or> a \<noteq> cache r \<or> k' \<noteq> k \<Longrightarrow>
   caches w' a k' = caches w a k'"
  by (auto simp: cache_store_def split: Lifecycle.splits option.splits)

text \<open>\<^verbatim>\<open>get\<close> writes no cache object but the one of its registry.\<close>

lemma get_caches_other:
  "get n r k w = Some (res, w') \<Longrightarrow> a \<noteq> cache r \<Longrightarrow> caches w' a = caches w a"
proof (induction n arbitrary: k w res w')
  case 0
  then show ?case by simp
next
  case (Suc n)
  have deps: "caches u' a = caches w a"
    if "map_get (get n r) ks w = Some (x, u')" for ks x u'
    using map_get_preserves [where P = "\<lambda>u. caches u a = caches w a" and g = "get n r"
        and w = w, OF _ _ that] Suc.IH [OF _ Suc.prems(2)] by simp
  from Suc.prems show ?case
    by (auto split: option.splits sum.splits prod.splits)
      (metis deps invoke_caches cache_store_caches_other)+
qed

text \<open>A truthy entry of a local cache is never overwritten.\<close>

lemma truthy_entry_stable:
  "get n r' k' w = Some (res, w') \<Longrightarrow> caches w c k = Some v \<Longrightarrow> truthy v \<Longrightarrow>
   caches w' c k = Some v"
proof (induction n arbitrary: k' w res w')
  case 0
  then show ?case by simp
next
  case (Suc n)
  have deps: "caches u' c k = Some v"
    if "map_get (get n r') ks w = Some (x, u')" for ks x u'
    using map_get_preserves [where P = "\<lambda>u. caches u c k = Some v" and g = "get n r'"
        and w = w, OF _ Suc.prems(2) that] Suc.IH [OF _ _ Suc.prems(3)] by blast
  show ?case
  proof (cases "factories r' k'")
    case None
    with Suc.prems show ?thesis by simp
  next
    case (Some d)
    show ?thesis
    proof (cases "lifecycle d = LocalSingleton \<and> cache r' = c \<and> k' = k")
      case True
      with Some Suc.prems have "get (Suc n) r' k' w = Some (Inr v, w)"
        using get_hit [of r' k' d w v n] by simp
      with Suc.prems show ?thesis by simp
    next
      case False
      then have other: "lifecycle d \<noteq> LocalSingleton \<or> c \<noteq> cache r' \<or> k \<noteq> k'" by auto
      from Suc.prems(1) Some show ?thesis
        by (auto split: option.splits sum.splits prod.splits)
          (metis deps invoke_caches cache_store_entry_other [OF _ other] Suc.prems(2))+
    qed
  qed
qed

text \<open>
  C9, as the code has it. Let the local cache of \<open>r\<close> hold a truthy instance \<open>v\<close> for \<open>k\<close>.
  \<^verbatim>\<open>fork\<close> and \<^verbatim>\<open>registerFactory\<close> both copy the contents of that cache into the cache
  object of the registry they return: when \<open>k\<close> is a LocalSingleton key of the new
  registry, \<^verbatim>\<open>get(k)\<close> on the fork and on the registry that \<^verbatim>\<open>registerFactory\<close> returned
  both return \<open>v\<close> and change nothing. The cache object itself is not shared: the new
  registry has an object of its own.
\<close>

theorem fork_and_registerFactory_copy_cache:
  assumes "caches w (cache r) k = Some v" and "truthy v"
  shows "(\<forall>f w' d n. fork r w = (f, w') \<and> factories r k = Some d \<and> lifecycle d = LocalSingleton
            \<longrightarrow> get (Suc n) f k w' = Some (Inr v, w'))
    \<and> (\<forall>k2 ds fac lc r2 w2 d2 n.
          registerFactory r k2 ds fac lc w = (Inr r2, w2) \<and> factories r2 k = Some d2
            \<and> lifecycle d2 = LocalSingleton
          \<longrightarrow> get (Suc n) r2 k w2 = Some (Inr v, w2))
    \<and> (cache r < next_cache w \<longrightarrow>
          cache (fst (fork r w)) \<noteq> cache r
        \<and> (\<forall>k2 ds fac lc r2 w2.
              registerFactory r k2 ds fac lc w = (Inr r2, w2) \<longrightarrow> cache r2 \<noteq> cache r))"
proof (intro conjI allI impI)
  fix f w' d n
  assume a: "fork r w = (f, w') \<and> factories r k = Some d \<and> lifecycle d = LocalSingleton"
  then have "factories f k = Some d" and "caches w' (cache f) k = Some v"
    using assms(1) by (auto simp: fork_def new_ServiceInjector_def)
  with a assms(2) show "get (Suc n) f k w' = Some (Inr v, w')"
    using get_hit [of f k d w' v n] by blast
next
  fix k2 ds fac lc r2 w2 d2 n
  assume a: "registerFactory r k2 ds fac lc w = (Inr r2, w2) \<and> factories r2 k = Some d2
      \<and> lifecycle d2 = LocalSingleton"
  then have "caches w2 (cache r2) k = Some v"
    using assms(1) by (auto simp: registerFactory_def new_ServiceInjector_def split: option.splits)
  with a assms(2) show "get (Suc n) r2 k w2 = Some (Inr v, w2)"
    using get_hit [of r2 k d2 w2 v n] by blast
next
  assume "cache r < next_cache w"
  then show "cache (fst (fork r w)) \<noteq> cache r"
    by (simp add: fork_def new_ServiceInjector_def)
next
  fix k2 ds fac lc r2 w2
  assume "cache r < next_cache w" and "registerFactory r k2 ds fac lc w = (Inr r2, w2)"
  then show "cache r2 \<noteq> cache r"
    by (auto simp: registerFactory_def new_ServiceInjector_def split: option.splits)
qed

theorem fork_and_registerFactory_copy_cache_witness:
  "caches world_L1_cached (cache registry_L1) 1 = Some (VObj 0) \<and> truthy (VObj 0)
    \<and> fork registry_L1 world_L1_cached = (registry_L1_fork, world_L1_copied)
    \<and> get 1 registry_L1_fork 1 world_L1_copied = Some (Inr (VObj 0), world_L1_copied)
    \<and> registerFactory registry_L1 2 [] object_factory (Some LocalSingleton) world_L1_cached =
        (Inr registry_L2, world_L1_copied)
    \<and> get 1 registry_L2 1 world_L1_copied = Some (Inr (VObj 0), world_L1_copied)
    \<and> cache registry_L1_fork \<noteq> cache registry_L1
    \<and> cache registry_L2 \<noteq> cache registry_L1"
proof -
  have c: "caches world_L1_cached (cache registry_L1) 1 = Some (VObj 0)"
    by (simp add: world_L1_cached_def registry_L1_def)
  have t: "truthy (VObj 0)" by simp
  have d1: "factories registry_L1 1 = Some local_object"
    by (simp add: registry_L1_def)
  have d2: "factories registry_L2 1 = Some local_object"
    by (simp add: registry_L2_def)
  have l: "lifecycle local_object = LocalSingleton"
    by (simp add: local_object_def)
  have a: "cache registry_L1 < next_cache world_L1_cached"
    by (simp add: registry_L1_def world_L1_cached_def empty_world_def)
  note inst = fork_and_registerFactory_copy_cache [OF c t]
  from inst fork_after_get d1 l
  have f: "get (Suc 0) registry_L1_fork 1 world_L1_copied = Some (Inr (VObj 0), world_L1_copied)"
    by blast
  from inst register_after_get(1) d2 l
  have g: "get (Suc 0) registry_L2 1 world_L1_copied = Some (Inr (VObj 0), world_L1_copied)"
    by blast
  from inst a fork_after_get have n1: "cache registry_L1_fork \<noteq> cache registry_L1"
    by (metis fst_conv)
  from inst a register_after_get(1) have n2: "cache registry_L2 \<noteq> cache registry_L1"
    by blast
  from c t fork_after_get f register_after_get(1) g n1 n2 show ?thesis by simp
qed

text \<open>
  The claim C9 says that a registry produced by \<^verbatim>\<open>registerFactory\<close> does not carry the
  cached LocalSingleton instances of the receiver. After \<^verbatim>\<open>r1.get(x)\<close> has cached the
  object at address 0, \<^verbatim>\<open>r2 = r1.registerFactory({key: y, ...})\<close> returns that very object
  for \<^verbatim>\<open>r2.get(x)\<close>, from its cache: the state does not change and the factory is not
  called.
\<close>

theorem registerFactory_carries_cache_counterexample:
  "get 1 registry_L1 1 (empty_world 2) = Some (Inr (VObj 0), world_L1_cached)
    \<and> registerFactory registry_L1 2 [] object_factory (Some LocalSingleton) world_L1_cached =
        (Inr registry_L2, world_L1_copied)
    \<and> caches world_L1_copied (cache registry_L2) 1 = Some (VObj 0)
    \<and> get 1 registry_L2 1 world_L1_copied = Some (Inr (VObj 0), world_L1_copied)"
proof -
  have c: "caches world_L1_copied (cache registry_L2) 1 = Some (VObj 0)"
    by (simp add: world_L1_copied_def with_cache_def registry_L2_def)
  have d: "factories registry_L2 1 = Some local_object"
    by (simp add: registry_L2_def)
  have l: "lifecycle local_object = LocalSingleton"
    by (simp add: local_object_def)
  have "get (Suc 0) registry_L2 1 world_L1_copied = Some (Inr (VObj 0), world_L1_copied)"
    using get_hit [OF d l c] by simp
  with get_L1 register_after_get(1) c show ?thesis by simp
qed

lemma get_LocalSingleton_cached:
  assumes "factories r k = Some d" and "lifecycle d = LocalSingleton"
    and "get (Suc n) r k w = Some (Inr v, w1)"
  shows "caches w1 (cache r) k = Some v"
proof (cases "cache_lookup r k LocalSingleton w")
  case (Inl e)
  with assms show ?thesis by simp
next
  case (Inr hit)
  show ?thesis
  proof (cases hit)
    case (Some v')
    with Inr assms have "v' = v" and "w1 = w" by simp_all
    with Inr Some show ?thesis
      by (auto simp: cache_lookup_def split: option.splits if_splits)
  next
    case None
    with Inr assms show ?thesis
      by (auto simp: cache_store_def split: option.splits sum.splits prod.splits)
  qed
qed

text \<open>
  C7, as the code has it. Let \<open>k\<close> be a LocalSingleton key of \<open>r\<close>.
  \<^item> Once \<^verbatim>\<open>get(k)\<close> on \<open>r\<close> has returned a truthy instance, the cache of \<open>r\<close> holds it and
    every later \<^verbatim>\<open>get(k)\<close> on \<open>r\<close> returns it and changes nothing, also after any other
    \<^verbatim>\<open>get\<close> on any registry.
  \<^item> A registry whose own cache has no truthy entry for \<open>k\<close> constructs its instance by a
    call of the factory, whatever the other caches hold.
  \<^item> A registry produced from \<open>r\<close> by \<^verbatim>\<open>fork\<close> or by \<^verbatim>\<open>registerFactory\<close> has a cache object
    of its own, different from the one of \<open>r\<close> when that exists, and this object starts
    with a copy of the contents of the cache of \<open>r\<close>. So when the cache of \<open>r\<close> holds a
    truthy instance for \<open>k\<close> at that time, \<^verbatim>\<open>get(k)\<close> on the fork returns that instance, and
    so does \<^verbatim>\<open>get(k)\<close> on the registry that \<^verbatim>\<open>registerFactory\<close> returned, when \<open>k\<close> is still
    a LocalSingleton key there (another key was registered, or \<open>k\<close> again as
    LocalSingleton).
  \<^item> \<^verbatim>\<open>get\<close> through any registry changes no cache object but the one of that registry:
    through \<open>r\<close> only the cache of \<open>r\<close>, through a fork only the cache of the fork, through
    a registry that \<^verbatim>\<open>registerFactory\<close> returned only the cache of that registry.
\<close>

theorem LocalSingleton_identity_and_isolation:
  assumes "factories r k = Some d" and "lifecycle d = LocalSingleton"
  shows "(\<forall>n w v w1. get (Suc n) r k w = Some (Inr v, w1) \<and> truthy v \<longrightarrow>
            caches w1 (cache r) k = Some v \<and> (\<forall>m. get (Suc m) r k w1 = Some (Inr v, w1)))
    \<and> (\<forall>w v j r' k' res w2 m.
          caches w (cache r) k = Some v \<and> truthy v \<and> get j r' k' w = Some (res, w2) \<longrightarrow>
            get (Suc m) r k w2 = Some (Inr v, w2))
    \<and> (\<forall>n w args w1.
          (\<forall>v. caches w (cache r) k = Some v \<longrightarrow> \<not> truthy v)
            \<and> map_get (get n r) (deps d) w = Some (Inr args, w1) \<longrightarrow>
          get (Suc n) r k w =
            Some (case invoke (factory d) args w1 of
                    (Inl e, w2) \<Rightarrow> (Inl e, w2)
                  | (Inr v, w2) \<Rightarrow> cache_store r k LocalSingleton v w2))
    \<and> (\<forall>w f w'. fork r w = (f, w') \<longrightarrow>
          factories f = factories r
        \<and> caches w' (cache f) = caches w (cache r)
        \<and> (cache r < next_cache w \<longrightarrow> cache f \<noteq> cache r)
        \<and> (\<forall>v n. caches w (cache r) k = Some v \<and> truthy v \<longrightarrow>
              get (Suc n) f k w' = Some (Inr v, w'))
        \<and> (\<forall>j k' u res u' a. get j f k' u = Some (res, u') \<and> a \<noteq> cache f \<longrightarrow>
              caches u' a = caches u a))
    \<and> (\<forall>w k2 ds fac lc r2 w2. registerFactory r k2 ds fac lc w = (Inr r2, w2) \<longrightarrow>
          caches w2 (cache r2) = caches w (cache r)
        \<and> (cache r < next_cache w \<longrightarrow> cache r2 \<noteq> cache r)
        \<and> (k2 \<noteq> k \<longrightarrow> factories r2 k = Some d)
        \<and> (\<forall>v n. caches w (cache r) k = Some v \<and> truthy v
                \<and> (k2 \<noteq> k \<or> lc = Some LocalSingleton) \<longrightarrow>
              get (Suc n) r2 k w2 = Some (Inr v, w2))
        \<and> (\<forall>j k' u res u' a. get j r2 k' u = Some (res, u') \<and> a \<noteq> cache r2 \<longrightarrow>
              caches u' a = caches u a))
    \<and> (\<forall>j k' u res u' a. get j r k' u = Some (res, u') \<and> a \<noteq> cache r \<longrightarrow>
          caches u' a = caches u a)"
proof (intro conjI allI impI)
  fix n w v w1
  assume a: "get (Suc n) r k w = Some (Inr v, w1) \<and> truthy v"
  then show c: "caches w1 (cache r) k = Some v"
    using get_LocalSingleton_cached [OF assms] by blast
  show "get (Suc m) r k w1 = Some (Inr v, w1)" for m
    using get_hit [OF assms c] a by blast
next
  fix w v j r' k' res w2 m
  assume a: "caches w (cache r) k = Some v \<and> truthy v \<and> get j r' k' w = Some (res, w2)"
  then have "caches w2 (cache r) k = Some v"
    using truthy_entry_stable [of j r' k' w res w2 "cache r" k v] by blast
  with a show "get (Suc m) r k w2 = Some (Inr v, w2)"
    using get_hit [OF assms] by blast
next
  fix n w args w1
  assume a: "(\<forall>v. caches w (cache r) k = Some v \<longrightarrow> \<not> truthy v)
      \<and> map_get (get n r) (deps d) w = Some (Inr args, w1)"
  then have "cache_lookup r k LocalSingleton w = Inr None"
    by (auto simp: cache_lookup_def split: option.splits)
  with a assms show "get (Suc n) r k w =
      Some (case invoke (factory d) args w1 of
              (Inl e, w2) \<Rightarrow> (Inl e, w2)
            | (Inr v, w2) \<Rightarrow> cache_store r k LocalSingleton v w2)"
    by (simp split: prod.splits sum.splits)
next
  fix w f w'
  assume a: "fork r w = (f, w')"
  then show fs: "factories f = factories r"
    by (auto simp: fork_def new_ServiceInjector_def)
  from a show copy: "caches w' (cache f) = caches w (cache r)"
    by (auto simp: fork_def new_ServiceInjector_def)
  from a show "cache f \<noteq> cache r" if "cache r < next_cache w"
    using that by (auto simp: fork_def new_ServiceInjector_def)
  show "get (Suc n) f k w' = Some (Inr v, w')"
    if "caches w (cache r) k = Some v \<and> truthy v" for v n
  proof -
    from fs assms(1) have "factories f k = Some d" by simp
    moreover from copy that have "caches w' (cache f) k = Some v" by simp
    ultimately show ?thesis
      using get_hit [of f k d w' v n] assms(2) that by blast
  qed
  show "caches u' a = caches u a" if "get j f k' u = Some (res, u') \<and> a \<noteq> cache f"
    for j k' u res u' a
    using get_caches_other [of j f k' u res u' a] that by blast
next
  fix w k2 ds fac lc r2 w2
  assume a: "registerFactory r k2 ds fac lc w = (Inr r2, w2)"
  then have r2: "factories r2 = (factories r)(k2 \<mapsto>
        \<lparr>lifecycle = (case lc of None \<Rightarrow> GlobalSingleton | Some l \<Rightarrow> l), deps = ds,
          factory = fac\<rparr>)"
    and c2: "cache r2 = next_cache w"
    by (auto simp: registerFactory_def new_ServiceInjector_def split: option.splits)
  from a show copy: "caches w2 (cache r2) = caches w (cache r)"
    by (auto simp: registerFactory_def new_ServiceInjector_def split: option.splits)
  from c2 show "cache r2 \<noteq> cache r" if "cache r < next_cache w"
    using that by simp
  from r2 assms(1) show "factories r2 k = Some d" if "k2 \<noteq> k"
    using that by simp
  show "get (Suc n) r2 k w2 = Some (Inr v, w2)"
    if h: "caches w (cache r) k = Some v \<and> truthy v \<and> (k2 \<noteq> k \<or> lc = Some LocalSingleton)"
    for v n
  proof -
    from r2 assms h obtain d2 where "factories r2 k = Some d2" "lifecycle d2 = LocalSingleton"
      by (cases "k2 = k") auto
    moreover from copy h have "caches w2 (cache r2) k = Some v" by simp
    ultimately show ?thesis
      using get_hit [of r2 k d2 w2 v n] h by blast
  qed
  show "caches u' a = caches u a" if "get j r2 k' u = Some (res, u') \<and> a \<noteq> cache r2"
    for j k' u res u' a
    using get_caches_other [of j r2 k' u res u' a] that by blast
next
  fix j k' u res u' a
  assume "get j r k' u = Some (res, u') \<and> a \<noteq> cache r"
  then show "caches u' a = caches u a"
    using get_caches_other [of j r k' u res u' a] by blast
qed

lemma fork_before_get: "fork registry_L1 (empty_world 2) = (registry_L1_fork, empty_world 3)"
  by (simp add: fork_def new_ServiceInjector_def registry_L1_def registry_L1_fork_def
      example_defs fun_upd_const numeral_3_eq_3)

lemma get_fork_original:
  "get 1 registry_L1 1 (empty_world 3) = Some (Inr (VObj 0), world_fork_original)"
  by (simp add: registry_L1_def world_fork_original_def example_defs)

lemma get_fork_both:
  "get 1 registry_L1_fork 1 world_fork_original = Some (Inr (VObj 1), world_fork_both)"
  by (simp add: registry_L1_fork_def world_fork_original_def world_fork_both_def example_defs)

theorem LocalSingleton_identity_and_isolation_witness:
  "factories registry_L1 1 = Some local_object \<and> lifecycle local_object = LocalSingleton
    \<and> fork registry_L1 (empty_world 2) = (registry_L1_fork, empty_world 3)
    \<and> cache registry_L1_fork \<noteq> cache registry_L1
    \<and> get 1 registry_L1 1 (empty_world 3) = Some (Inr (VObj 0), world_fork_original)
    \<and> get 1 registry_L1_fork 1 world_fork_original = Some (Inr (VObj 1), world_fork_both)
    \<and> caches world_fork_both (cache registry_L1) = caches world_fork_original (cache registry_L1)
    \<and> caches world_fork_original (cache registry_L1_fork) =
        caches (empty_world 3) (cache registry_L1_fork)
    \<and> get 1 registry_L1 1 world_fork_both = Some (Inr (VObj 0), world_fork_both)
    \<and> get 1 registry_L1 1 world_fork_original = Some (Inr (VObj 0), world_fork_original)
    \<and> fork registry_L1 world_L1_cached = (registry_L1_fork, world_L1_copied)
    \<and> get 1 registry_L1_fork 1 world_L1_copied = Some (Inr (VObj 0), world_L1_copied)
    \<and> registerFactory registry_L1 4 [1] (throwing_factory (VStr ''boom'')) (Some LocalSingleton)
        world_L1_cached = (Inr registry_T, world_L1_copied)
    \<and> caches world_L1_copied (cache registry_T) = caches world_L1_cached (cache registry_L1)
    \<and> cache registry_T \<noteq> cache registry_L1
    \<and> get 1 registry_T 1 world_L1_copied = Some (Inr (VObj 0), world_L1_copied)"
proof -
  have d: "factories registry_L1 1 = Some local_object"
    by (simp add: registry_L1_def)
  have l: "lifecycle local_object = LocalSingleton"
    by (simp add: local_object_def)
  have a: "cache registry_L1 < next_cache (empty_world 2)"
    by (simp add: registry_L1_def empty_world_def)
  have a': "cache registry_L1 < next_cache world_L1_cached"
    by (simp add: registry_L1_def world_L1_cached_def empty_world_def)
  have t: "truthy (VObj 0)" by simp
  have g: "get (Suc 0) registry_L1 1 (empty_world 3) = Some (Inr (VObj 0), world_fork_original)"
    using get_fork_original by simp
  have cached: "caches world_L1_cached (cache registry_L1) 1 = Some (VObj 0)"
    by (simp add: world_L1_cached_def registry_L1_def)
  have k: "(4::nat) \<noteq> 1" by simp
  have nf: "(1::nat) \<noteq> cache registry_L1_fork" and nr: "(2::nat) \<noteq> cache registry_L1"
    by (simp_all add: registry_L1_fork_def registry_L1_def)
  have one: "cache registry_L1 = 1" and two: "cache registry_L1_fork = 2"
    by (simp_all add: registry_L1_fork_def registry_L1_def)
  note inst = LocalSingleton_identity_and_isolation [OF d l]
  note same = inst [THEN conjunct1]
  note stable = inst [THEN conjunct2, THEN conjunct1]
  note forked = inst [THEN conjunct2, THEN conjunct2, THEN conjunct2, THEN conjunct1]
  note registered =
    inst [THEN conjunct2, THEN conjunct2, THEN conjunct2, THEN conjunct2, THEN conjunct1]
  note local =
    inst [THEN conjunct2, THEN conjunct2, THEN conjunct2, THEN conjunct2, THEN conjunct2]
  from same g t have c: "caches world_fork_original (cache registry_L1) 1 = Some (VObj 0)"
    and again: "get (Suc 0) registry_L1 1 world_fork_original =
      Some (Inr (VObj 0), world_fork_original)"
    by blast+
  from stable c t get_fork_both
  have later: "get (Suc 0) registry_L1 1 world_fork_both = Some (Inr (VObj 0), world_fork_both)"
    by blast
  from forked fork_before_get a have ne: "cache registry_L1_fork \<noteq> cache registry_L1"
    by blast
  from forked fork_before_get get_fork_both nf
  have "caches world_fork_both 1 = caches world_fork_original 1"
    by blast
  then have sep1: "caches world_fork_both (cache registry_L1) =
      caches world_fork_original (cache registry_L1)"
    by (simp add: one)
  from local get_fork_original nr
  have "caches world_fork_original 2 = caches (empty_world 3) 2"
    by blast
  then have sep2: "caches world_fork_original (cache registry_L1_fork) =
      caches (empty_world 3) (cache registry_L1_fork)"
    by (simp add: two)
  from forked fork_after_get cached t
  have fk: "get (Suc 0) registry_L1_fork 1 world_L1_copied = Some (Inr (VObj 0), world_L1_copied)"
    by blast
  from registered register_after_get(2)
  have cp: "caches world_L1_copied (cache registry_T) = caches world_L1_cached (cache registry_L1)"
    by blast
  from registered register_after_get(2) a' have ne2: "cache registry_T \<noteq> cache registry_L1"
    by blast
  from registered register_after_get(2) cached t k
  have rg: "get (Suc 0) registry_T 1 world_L1_copied = Some (Inr (VObj 0), world_L1_copied)"
    by blast
  from d l fork_before_get ne get_fork_original get_fork_both sep1 sep2 later again
    fork_after_get fk register_after_get(2) cp ne2 rg
  show ?thesis by simp
qed

text \<open>
  The claim C7 says that a registry that was not forked from \<open>r\<close> gets an instance of its
  own. After \<^verbatim>\<open>r1.get(x)\<close> has cached the object at address 0, the registry
  \<^verbatim>\<open>rT = r1.registerFactory({key: t, ...})\<close> is a different registry, not produced by
  \<^verbatim>\<open>fork\<close>, and \<^verbatim>\<open>rT.get(x)\<close> returns the object at address 0 again: nothing is constructed,
  the heap is what it was.
\<close>

theorem registered_registry_shares_instance_counterexample:
  "get 1 registry_L1 1 (empty_world 2) = Some (Inr (VObj 0), world_L1_cached)
    \<and> registerFactory registry_L1 4 [1] (throwing_factory (VStr ''boom'')) (Some LocalSingleton)
        world_L1_cached = (Inr registry_T, world_L1_copied)
    \<and> cache registry_T \<noteq> cache registry_L1
    \<and> get 1 registry_T 1 world_L1_copied = Some (Inr (VObj 0), world_L1_copied)
    \<and> fresh world_L1_copied = fresh world_L1_cached"
proof -
  have c: "caches world_L1_copied (cache registry_T) 1 = Some (VObj 0)"
    by (simp add: world_L1_copied_def with_cache_def registry_T_def)
  have d: "factories registry_T 1 = Some local_object"
    by (simp add: registry_T_def)
  have l: "lifecycle local_object = LocalSingleton"
    by (simp add: local_object_def)
  have g: "get (Suc 0) registry_T 1 world_L1_copied = Some (Inr (VObj 0), world_L1_copied)"
    using get_hit [OF d l c] by simp
  have n: "cache registry_T \<noteq> cache registry_L1"
    by (simp add: registry_T_def registry_L1_def)
  have f: "fresh world_L1_copied = fresh world_L1_cached"
    by (simp add: world_L1_copied_def with_cache_def)
  from get_L1 register_after_get(2) n g f show ?thesis by simp
qed

section \<open>Ephemeral services\<close>

lemma program_E:
  "registerFactory registry_L1 6 [1] object_factory (Some Ephemeral) (empty_world 2) =
     (Inr registry_E, empty_world 3)"
  by (simp add: registerFactory_def new_ServiceInjector_def empty_world_def
      registry_L1_def registry_E_def local_object_def fun_upd_const)

lemma invoke_fresh:
  "h \<le> snd (f args h) \<Longrightarrow> h = fresh w \<Longrightarrow> invoke f args w = (res, w') \<Longrightarrow> fresh w \<le> fresh w'"
  by (auto simp: invoke_def split: prod.splits sum.splits)

lemma cache_store_fresh: "cache_store r k lc v w = (res, w') \<Longrightarrow> fresh w' = fresh w"
  by (auto simp: cache_store_def split: Lifecycle.splits option.splits)

text \<open>Under monotone factories \<^verbatim>\<open>get\<close> never lowers the counter of the heap.\<close>

lemma get_fresh_mono:
  assumes mono: "heap_monotone r"
  shows "get n r k w = Some (res, w') \<Longrightarrow> fresh w \<le> fresh w'"
proof (induction n arbitrary: k w res w')
  case 0
  then show ?case by simp
next
  case (Suc n)
  have deps: "fresh w \<le> fresh u'"
    if "map_get (get n r) ks w = Some (x, u')" for ks x u'
  proof -
    have step: "fresh w \<le> fresh b" if "fresh w \<le> fresh a" "get n r j a = Some (y, b)" for j a y b
      using Suc.IH [OF that(2)] that(1) by simp
    show ?thesis
      using map_get_preserves [where P = "\<lambda>u. fresh w \<le> fresh u" and g = "get n r" and w = w,
          OF _ _ that] step by blast
  qed
  show ?case
  proof (cases "factories r k")
    case None
    with Suc.prems show ?thesis by simp
  next
    case (Some d)
    have f: "fresh u \<le> fresh u'" if "invoke (factory d) args u = (x, u')" for args u x u'
      using invoke_fresh [OF _ refl that] mono Some by (simp add: heap_monotone_def)
    from Suc.prems Some show ?thesis
      by (auto split: option.splits sum.splits prod.splits)
        (metis deps f cache_store_fresh le_trans)+
  qed
qed

lemma map_get_fresh_mono:
  assumes "heap_monotone r" and "map_get (get n r) ks w = Some (x, u')"
  shows "fresh w \<le> fresh u'"
proof -
  have step: "fresh w \<le> fresh b" if "fresh w \<le> fresh a" "get n r j a = Some (y, b)" for j a y b
    using get_fresh_mono [OF assms(1) that(2)] that(1) by simp
  show ?thesis
    using map_get_preserves [where P = "\<lambda>u. fresh w \<le> fresh u" and g = "get n r" and w = w,
        OF _ _ assms(2)] step by blast
qed

lemma get_Ephemeral:
  assumes "factories r k = Some d" and "lifecycle d = Ephemeral"
  shows "get (Suc n) r k w =
     (case map_get (get n r) (deps d) w of
        None \<Rightarrow> None
      | Some (Inl e, w1) \<Rightarrow> Some (Inl e, w1)
      | Some (Inr args, w1) \<Rightarrow> Some (invoke (factory d) args w1))"
  using assms
  by (auto simp: cache_lookup_def cache_store_def split: option.splits sum.splits prod.splits)

lemma get_Ephemeral_allocates:
  assumes "factories r k = Some d" and "lifecycle d = Ephemeral" and "allocating (factory d)"
    and "heap_monotone r" and "get (Suc n) r k w = Some (Inr v, w')"
  shows "\<exists>a. v = VObj a \<and> fresh w \<le> a \<and> a < fresh w'"
proof -
  from assms(5) obtain args w1 where
    m: "map_get (get n r) (deps d) w = Some (Inr args, w1)"
    and i: "invoke (factory d) args w1 = (Inr v, w')"
    unfolding get_Ephemeral [OF assms(1,2)]
    by (auto split: option.splits sum.splits prod.splits)
  from assms(3) obtain a h' where
    f: "factory d args (fresh w1) = (Inr (VObj a), h')" and b: "fresh w1 \<le> a" "a < h'"
    unfolding allocating_def by blast
  from i f have "v = VObj a" and "fresh w' = h'"
    by (auto simp: invoke_def)
  moreover from map_get_fresh_mono [OF assms(4) m] have "fresh w \<le> fresh w1" .
  ultimately show ?thesis using b by auto
qed

text \<open>
  C8. Let \<open>k\<close> be an Ephemeral key of \<open>r\<close>. In every state \<^verbatim>\<open>get(k)\<close> runs the full
  resolution: it consults no cache for \<open>k\<close>, resolves the dependencies (each by its own
  \<^verbatim>\<open>get\<close>, which may hit a cache) and calls the factory. It writes no cache: the caches
  after the call are the caches the dependencies left. When the factory allocates a
  distinguishable object at each call and no factory of the registry gives addresses
  back, two successive calls that return yield different instances.
\<close>

theorem Ephemeral_is_never_cached:
  assumes "factories r k = Some d" and "lifecycle d = Ephemeral"
  shows "(\<forall>n w. get (Suc n) r k w =
            (case map_get (get n r) (deps d) w of
               None \<Rightarrow> None
             | Some (Inl e, w1) \<Rightarrow> Some (Inl e, w1)
             | Some (Inr args, w1) \<Rightarrow> Some (invoke (factory d) args w1)))
    \<and> (\<forall>n w args w1 res w'.
          map_get (get n r) (deps d) w = Some (Inr args, w1) \<and> get (Suc n) r k w = Some (res, w')
          \<longrightarrow> caches w' = caches w1 \<and> globalCache w' = globalCache w1)
    \<and> (heap_monotone r \<and> allocating (factory d) \<longrightarrow>
          (\<forall>n m w v1 w1 v2 w2.
             get (Suc n) r k w = Some (Inr v1, w1) \<and> get (Suc m) r k w1 = Some (Inr v2, w2)
             \<longrightarrow> v1 \<noteq> v2))"
proof (intro conjI allI impI)
  fix n w
  show "get (Suc n) r k w =
      (case map_get (get n r) (deps d) w of
         None \<Rightarrow> None
       | Some (Inl e, w1) \<Rightarrow> Some (Inl e, w1)
       | Some (Inr args, w1) \<Rightarrow> Some (invoke (factory d) args w1))"
    by (rule get_Ephemeral [OF assms])
next
  fix n w args w1 res w'
  assume a: "map_get (get n r) (deps d) w = Some (Inr args, w1)
      \<and> get (Suc n) r k w = Some (res, w')"
  then have i: "invoke (factory d) args w1 = (res, w')"
    unfolding get_Ephemeral [OF assms] by auto
  show "caches w' = caches w1"
    using invoke_caches [OF i] .
  show "globalCache w' = globalCache w1"
    using invoke_globalCache [OF i] .
next
  fix n m w v1 w1 v2 w2
  assume h: "heap_monotone r \<and> allocating (factory d)"
    and g: "get (Suc n) r k w = Some (Inr v1, w1) \<and> get (Suc m) r k w1 = Some (Inr v2, w2)"
  from h g obtain a1 where v1: "v1 = VObj a1" "a1 < fresh w1"
    using get_Ephemeral_allocates [OF assms, of n w v1 w1] by blast
  from h g obtain a2 where v2: "v2 = VObj a2" "fresh w1 \<le> a2"
    using get_Ephemeral_allocates [OF assms, of m w1 v2 w2] by blast
  from v1 v2 show "v1 \<noteq> v2" by auto
qed

lemma allocating_object_factory: "allocating object_factory"
  by (simp add: allocating_def object_factory_def)

lemma heap_monotone_registry_E: "heap_monotone registry_E"
  by (auto simp: heap_monotone_def registry_E_def local_object_def object_factory_def
      split: if_splits)

lemma get_E1: "get 2 registry_E 6 (empty_world 3) = Some (Inr (VObj 1), world_E1)"
  by (simp add: registry_E_def world_E1_def example_defs)

lemma get_E2: "get 2 registry_E 6 world_E1 = Some (Inr (VObj 2), world_E2)"
  by (simp add: registry_E_def world_E1_def world_E2_def example_defs numeral_3_eq_3)

theorem Ephemeral_is_never_cached_witness:
  "factories registry_E 6 = Some \<lparr>lifecycle = Ephemeral, deps = [1], factory = object_factory\<rparr>
    \<and> heap_monotone registry_E \<and> allocating object_factory
    \<and> get 2 registry_E 6 (empty_world 3) = Some (Inr (VObj 1), world_E1)
    \<and> get 2 registry_E 6 world_E1 = Some (Inr (VObj 2), world_E2)
    \<and> VObj 1 \<noteq> VObj 2
    \<and> caches world_E1 (cache registry_E) 6 = None
    \<and> caches world_E2 = caches world_E1
    \<and> caches world_E1 (cache registry_E) 1 = Some (VObj 0)"
proof -
  let ?d = "\<lparr>lifecycle = Ephemeral, deps = [1], factory = object_factory\<rparr>"
  have d: "factories registry_E 6 = Some ?d"
    by (simp add: registry_E_def)
  have l: "lifecycle ?d = Ephemeral" by simp
  have al: "allocating (factory ?d)"
    using allocating_object_factory by simp
  have g1: "get (Suc 1) registry_E 6 (empty_world 3) = Some (Inr (VObj 1), world_E1)"
    using get_E1 by (simp add: numeral_2_eq_2)
  have g2: "get (Suc 1) registry_E 6 world_E1 = Some (Inr (VObj 2), world_E2)"
    using get_E2 by (simp add: numeral_2_eq_2)
  have m: "map_get (get 1 registry_E) (deps ?d) world_E1 =
      Some (Inr [VObj 0], world_E1)"
    by (simp add: registry_E_def world_E1_def example_defs)
  note inst = Ephemeral_is_never_cached [OF d l]
  from inst heap_monotone_registry_E al g1 g2 have ne: "VObj 1 \<noteq> VObj 2"
    by blast
  from inst m g2 have c: "caches world_E2 = caches world_E1"
    by blast
  have e: "caches world_E1 (cache registry_E) 6 = None"
    "caches world_E1 (cache registry_E) 1 = Some (VObj 0)"
    by (simp_all add: world_E1_def registry_E_def)
  from d heap_monotone_registry_E allocating_object_factory get_E1 get_E2 ne c e
  show ?thesis by simp
qed

section \<open>Falsy instances\<close>

lemma program_F:
  "registerFactory root 5 [] alternating_falsy_factory (Some LocalSingleton) (empty_world 1) =
     (Inr registry_F, empty_world 2)"
  "registerFactory root 5 [] alternating_falsy_factory None (empty_world 1) =
     (Inr registry_Z, empty_world 2)"
  by (simp_all add: registerFactory_def new_ServiceInjector_def empty_world_def root_eq
      registry_F_def registry_Z_def fun_upd_const)

lemma get_F1: "get 1 registry_F 5 (empty_world 2) = Some (Inr VNull, world_F1)"
  by (simp add: registry_F_def world_F1_def alternating_falsy_factory_def example_defs)

text \<open>
  The sibling path: what the truthiness test does for a LocalSingleton key, whose cache
  exists. Let the cache entry of \<open>k\<close> be present but falsy. \<^verbatim>\<open>get(k)\<close> misses the cache: it
  resolves the dependencies, calls the factory again, and stores and returns the new
  result, which need not be the cached value. When the new result is falsy too, the next
  \<^verbatim>\<open>get(k)\<close> misses again; when it is truthy, every later \<^verbatim>\<open>get(k)\<close> returns it and changes
  nothing.
\<close>

lemma falsy_entry_is_a_miss:
  assumes "factories r k = Some d" and "lifecycle d = LocalSingleton"
    and "caches w (cache r) k = Some v0" and "\<not> truthy v0"
    and "map_get (get n r) (deps d) w = Some (Inr args, w1)"
    and "factory d args (fresh w1) = (Inr v, h)"
    and "w' = w1\<lparr>caches := (caches w1)(cache r := (caches w1 (cache r))(k \<mapsto> v)), fresh := h\<rparr>"
  shows "get (Suc n) r k w = Some (Inr v, w')
    \<and> caches w' (cache r) k = Some v
    \<and> (\<not> truthy v \<longrightarrow> cache_lookup r k LocalSingleton w' = Inr None)
    \<and> (truthy v \<longrightarrow> (\<forall>m. get (Suc m) r k w' = Some (Inr v, w')))"
proof -
  from assms(3,4) have miss: "cache_lookup r k LocalSingleton w = Inr None"
    by (simp add: cache_lookup_def)
  from assms(6) have i: "invoke (factory d) args w1 = (Inr v, w1\<lparr>fresh := h\<rparr>)"
    by (simp add: invoke_def)
  have s: "cache_store r k LocalSingleton v (w1\<lparr>fresh := h\<rparr>) = (Inr v, w')"
    by (simp add: cache_store_def assms(7))
  from assms(1,2,5) miss i s have g: "get (Suc n) r k w = Some (Inr v, w')"
    by simp
  have c: "caches w' (cache r) k = Some v"
    by (simp add: assms(7))
  have f: "cache_lookup r k LocalSingleton w' = Inr None" if "\<not> truthy v"
    using c that by (simp add: cache_lookup_def)
  have t: "get (Suc m) r k w' = Some (Inr v, w')" if "truthy v" for m
    using get_hit [OF assms(1,2) c that] .
  from g c f t show ?thesis by blast
qed

lemma falsy_entry_is_a_miss_example:
  "factories registry_F 5 =
      Some \<lparr>lifecycle = LocalSingleton, deps = [], factory = alternating_falsy_factory\<rparr>
    \<and> get 1 registry_F 5 (empty_world 2) = Some (Inr VNull, world_F1)
    \<and> caches world_F1 (cache registry_F) 5 = Some VNull \<and> \<not> truthy VNull
    \<and> get 1 registry_F 5 world_F1 = Some (Inr VUndefined, world_F2)
    \<and> VNull \<noteq> VUndefined
    \<and> cache_lookup registry_F 5 LocalSingleton world_F2 = Inr None"
proof -
  let ?d = "\<lparr>lifecycle = LocalSingleton, deps = [], factory = alternating_falsy_factory\<rparr>"
  have d: "factories registry_F 5 = Some ?d"
    by (simp add: registry_F_def)
  have l: "lifecycle ?d = LocalSingleton" by simp
  have c: "caches world_F1 (cache registry_F) 5 = Some VNull"
    by (simp add: world_F1_def registry_F_def)
  have n: "\<not> truthy VNull" by simp
  have m: "map_get (get 0 registry_F) (deps ?d) world_F1 = Some (Inr [], world_F1)"
    by simp
  have f: "factory ?d [] (fresh world_F1) = (Inr VUndefined, 2)"
    by (simp add: alternating_falsy_factory_def world_F1_def)
  have w: "world_F2 = world_F1\<lparr>caches := (caches world_F1)(cache registry_F :=
      (caches world_F1 (cache registry_F))(5 \<mapsto> VUndefined)), fresh := 2\<rparr>"
    by (simp add: world_F1_def world_F2_def registry_F_def empty_world_def)
  note inst = falsy_entry_is_a_miss [OF d l c n m f w]
  from inst have g: "get (Suc 0) registry_F 5 world_F1 = Some (Inr VUndefined, world_F2)"
    by blast
  from inst have again: "cache_lookup registry_F 5 LocalSingleton world_F2 = Inr None"
    by simp
  from d get_F1 c n g again show ?thesis by simp
qed

text \<open>
  The path the code attempts for a GlobalSingleton key: in a state where the global cache
  is an object (no state a program reaches is one), a present but falsy entry is a miss
  as well, and \<^verbatim>\<open>get\<close> calls the factory again and stores and returns the new result.
\<close>

lemma falsy_global_entry_is_a_miss_if_initialised:
  assumes "factories r k = Some d" and "lifecycle d = GlobalSingleton"
    and "globalCache w = Some g" and "g k = Some v0" and "\<not> truthy v0"
    and "map_get (get n r) (deps d) w = Some (Inr args, w1)"
    and "globalCache w1 = Some g1"
    and "factory d args (fresh w1) = (Inr v, h)"
  shows "get (Suc n) r k w =
     Some (Inr v, w1\<lparr>globalCache := Some (g1(k \<mapsto> v)), fresh := h\<rparr>)"
proof -
  from assms(3-5) have miss: "cache_lookup r k GlobalSingleton w = Inr None"
    by (simp add: cache_lookup_def)
  from assms(8) have i: "invoke (factory d) args w1 = (Inr v, w1\<lparr>fresh := h\<rparr>)"
    by (simp add: invoke_def)
  from assms(7) have s: "cache_store r k GlobalSingleton v (w1\<lparr>fresh := h\<rparr>) =
      (Inr v, w1\<lparr>globalCache := Some (g1(k \<mapsto> v)), fresh := h\<rparr>)"
    by (simp add: cache_store_def)
  from assms(1,2,6) miss i s show ?thesis by simp
qed

text \<open>
  C5. The claim covers GlobalSingleton keys: with a factory whose results are falsy, every
  \<^verbatim>\<open>get\<close> is to miss the cache and call the factory again. The program
  \<^verbatim>\<open>rZ = getRoot().registerFactory({key: s, deps: [], factory: f})\<close> followed by
  \<^verbatim>\<open>rZ.get(s)\<close>, where \<^verbatim>\<open>s\<close> has the default lifecycle and \<^verbatim>\<open>f\<close> returns \<^verbatim>\<open>null\<close> on its first
  call, does not do so: \<^verbatim>\<open>get\<close> throws a TypeError at the lookup in the global cache and
  leaves the state as it was. The factory, which would advance the counter of the heap,
  is not called, and no value is returned.
\<close>

theorem falsy_GlobalSingleton_program:
  "registerFactory root 5 [] alternating_falsy_factory None (empty_world 1) =
      (Inr registry_Z, empty_world 2)
    \<and> factories registry_Z 5 =
        Some \<lparr>lifecycle = GlobalSingleton, deps = [], factory = alternating_falsy_factory\<rparr>
    \<and> alternating_falsy_factory [] (fresh (empty_world 2)) = (Inr VNull, 1)
    \<and> \<not> truthy VNull
    \<and> get 1 registry_Z 5 (empty_world 2) = Some (Inl TypeError, empty_world 2)"
proof -
  have d: "factories registry_Z 5 =
      Some \<lparr>lifecycle = GlobalSingleton, deps = [], factory = alternating_falsy_factory\<rparr>"
    by (simp add: registry_Z_def)
  have f: "alternating_falsy_factory [] (fresh (empty_world 2)) = (Inr VNull, 1)"
    by (simp add: alternating_falsy_factory_def empty_world_def)
  have g: "get 1 registry_Z 5 (empty_world 2) = Some (Inl TypeError, empty_world 2)"
    by (simp add: registry_Z_def cache_lookup_def empty_world_def)
  from program_F(2) d f g show ?thesis by simp
qed

end
